theory Spec2Isabelle
  imports Complex_Main "HOL-Library.Sublist"
begin

section \<open>Python values and errors\<close>

text \<open>
  The model covers \<^verbatim>\<open>dante_tokenizer/evaluate/evaluate.py\<close>. Tokens are values of an
  arbitrary type \<open>'a\<close> compared with \<open>=\<close>; Python's unbounded integers are \<open>int\<close>;
  list positions and lengths are \<open>nat\<close>. Every exception the interpreter can raise in
  the modelled code is a constructor of \<open>py_error\<close>, and a function that can raise
  returns \<open>py_error + 'a\<close> with \<open>Inl\<close> for the exception.
\<close>

datatype py_error = AssertionError | IndexError | TypeError | ZeroDivisionError

definition py_bind :: "py_error + 'a \<Rightarrow> ('a \<Rightarrow> py_error + 'b) \<Rightarrow> py_error + 'b" where
  "py_bind m f = (case m of Inl e \<Rightarrow> Inl e | Inr v \<Rightarrow> f v)"

text \<open>\<open>xs[k]\<close> for a non-negative index: \<open>IndexError\<close> past the end.\<close>

definition item :: "'a list \<Rightarrow> nat \<Rightarrow> py_error + 'a" where
  "item xs k = (if k < length xs then Inr (xs ! k) else Inl IndexError)"

text \<open>
  \<open>for k in ks: s = body(k, s)\<close>, stopping at the first exception. The loops of the
  source run over \<open>range(n)\<close>, which is \<open>[0..<n]\<close>.
\<close>

fun for_range :: "nat list \<Rightarrow> (nat \<Rightarrow> 's \<Rightarrow> py_error + 's) \<Rightarrow> 's \<Rightarrow> py_error + 's" where
  "for_range [] body s = Inr s"
| "for_range (k # ks) body s =
     (case body k s of Inl e \<Rightarrow> Inl e | Inr s' \<Rightarrow> for_range ks body s')"

section \<open>The table of \<open>longest_common_token_sequence\<close>\<close>

text \<open>
  \<open>L\<close> is a list of rows; a cell is \<open>None\<close> until the loop assigns it. Reading a cell
  returns what is stored (possibly \<open>None\<close>); using \<open>None\<close> in \<open>+\<close> or \<open>max\<close> raises
  \<open>TypeError\<close>; an access outside the table raises \<open>IndexError\<close>.
\<close>

type_synonym table = "int option list list"

definition tbl_get :: "table \<Rightarrow> nat \<Rightarrow> nat \<Rightarrow> py_error + int option" where
  "tbl_get L i j = py_bind (item L i) (\<lambda>row. item row j)"

definition tbl_set :: "table \<Rightarrow> nat \<Rightarrow> nat \<Rightarrow> int \<Rightarrow> py_error + table" where
  "tbl_set L i j v =
     py_bind (item L i) (\<lambda>row.
       if j < length row then Inr (L[i := row[j := Some v]]) else Inl IndexError)"

definition num :: "int option \<Rightarrow> py_error + int" where
  "num c = (case c of None \<Rightarrow> Inl TypeError | Some v \<Rightarrow> Inr v)"

text \<open>The body of the inner loop (source lines 33 to 38), for one pair \<open>(i, j)\<close>.\<close>

definition lcts_cell :: "'a list \<Rightarrow> 'a list \<Rightarrow> nat \<Rightarrow> nat \<Rightarrow> table \<Rightarrow> py_error + table" where
  "lcts_cell left right i j L =
     (if i = 0 \<or> j = 0 then tbl_set L i j 0
      else
        py_bind (item left (i - 1)) (\<lambda>a.
        py_bind (item right (j - 1)) (\<lambda>b.
          if a = b then
            py_bind (tbl_get L (i - 1) (j - 1)) (\<lambda>c.
            py_bind (num c) (\<lambda>v. tbl_set L i j (v + 1)))
          else
            py_bind (tbl_get L (i - 1) j) (\<lambda>c.
            py_bind (tbl_get L i (j - 1)) (\<lambda>d.
            py_bind (num c) (\<lambda>u.
            py_bind (num d) (\<lambda>v. tbl_set L i j (max u v))))))))"

text \<open>
  Lines 26 to 38: the table of \<open>n_left + 1\<close> fresh rows of \<open>n_right + 1\<close> cells
  \<open>None\<close>, filled row by row.
\<close>

definition lcts_table :: "'a list \<Rightarrow> 'a list \<Rightarrow> py_error + table" where
  "lcts_table left right =
     (let n_left = length left;
          n_right = length right;
          L = map (\<lambda>i. replicate (n_right + 1) None) [0..<n_left + 1]
      in for_range [0..<n_left + 1]
           (\<lambda>i. for_range [0..<n_right + 1] (\<lambda>j. lcts_cell left right i j)) L)"

text \<open>Line 40: the function returns the last cell of the filled table as it is.\<close>

definition longest_common_token_sequence :: "'a list \<Rightarrow> 'a list \<Rightarrow> py_error + int option" where
  "longest_common_token_sequence left right =
     py_bind (lcts_table left right) (\<lambda>L. tbl_get L (length left) (length right))"

text \<open>
  The recurrence as the specification words it, to be compared with the table the code
  builds: \<open>L[i][0] = L[0][j] = 0\<close>; for \<open>i, j \<ge> 1\<close>, \<open>L[i][j] = L[i-1][j-1] + 1\<close> when
  \<open>left[i-1] = right[j-1]\<close>, and \<open>max(L[i-1][j], L[i][j-1])\<close> otherwise.
\<close>

fun L_spec :: "'a list \<Rightarrow> 'a list \<Rightarrow> nat \<Rightarrow> nat \<Rightarrow> int" where
  "L_spec left right 0 j = 0"
| "L_spec left right (Suc i) 0 = 0"
| "L_spec left right (Suc i) (Suc j) =
     (if left ! i = right ! j then L_spec left right i j + 1
      else max (L_spec left right i (Suc j)) (L_spec left right (Suc i) j))"

text \<open>
  The loop invariant of the two nested loops: the table has its shape, and every cell
  before position \<open>(i, j)\<close> in row-major order holds the value of the recurrence.
\<close>

definition filled :: "'a list \<Rightarrow> 'a list \<Rightarrow> table \<Rightarrow> nat \<Rightarrow> nat \<Rightarrow> bool" where
  "filled left right L i j \<longleftrightarrow>
     length L = length left + 1 \<and>
     (\<forall>r \<le> length left. length (L ! r) = length right + 1) \<and>
     (\<forall>r c. r \<le> length left \<and> c \<le> length right \<and> (r < i \<or> (r = i \<and> c < j))
        \<longrightarrow> L ! r ! c = Some (L_spec left right r c))"

section \<open>\<open>evaluate_sentence\<close>\<close>

text \<open>
  Lines 132 to 136. The subtraction \<open>len(pred_tokens) - true_positives\<close> raises
  \<open>TypeError\<close> if the first function returned \<open>None\<close>. The result is the tuple
  \<open>(true_positives, false_positives, false_negatives)\<close>.
\<close>

definition evaluate_sentence :: "'a list \<Rightarrow> 'a list \<Rightarrow> py_error + int \<times> int \<times> int" where
  "evaluate_sentence pred_tokens true_tokens =
     py_bind (longest_common_token_sequence pred_tokens true_tokens) (\<lambda>r.
     py_bind (num r) (\<lambda>tp.
       Inr (tp, int (length pred_tokens) - tp, int (length true_tokens) - tp)))"

section \<open>Floating-point arithmetic as a parameter\<close>

text \<open>
  The scores are Python floats and \<open>numpy\<close> reductions. The arithmetic is a parameter of
  the model: \<open>'f\<close> is the type of floats, \<open>float_of\<close> the conversion of an integer
  operand in mixed arithmetic, \<open>eps\<close> the literal \<open>1e-9\<close>, \<open>fadd\<close>, \<open>fmul\<close> and
  \<open>fdiv\<close> the operations \<open>+\<close>, \<open>*\<close> and \<open>/\<close> (the last for a divisor that is not
  zero), \<open>fzero x\<close> the test \<open>x == 0.0\<close>, \<open>fle\<close> the comparison \<open>\<le>\<close>, and
  \<open>np_mean\<close>, \<open>np_std\<close> the functions \<open>numpy.mean\<close> and \<open>numpy.std\<close> on a list
  (which return a value, \<open>nan\<close> with a warning on the empty list, and do not raise).
\<close>

record 'f float_ops =
  float_of :: "int \<Rightarrow> 'f"
  eps :: "'f"
  fadd :: "'f \<Rightarrow> 'f \<Rightarrow> 'f"
  fmul :: "'f \<Rightarrow> 'f \<Rightarrow> 'f"
  fdiv :: "'f \<Rightarrow> 'f \<Rightarrow> 'f"
  fzero :: "'f \<Rightarrow> bool"
  fle :: "'f \<Rightarrow> 'f \<Rightarrow> bool"
  np_mean :: "'f list \<Rightarrow> 'f"
  np_std :: "'f list \<Rightarrow> 'f"

text \<open>Python's \<open>a / b\<close> on floats raises \<open>ZeroDivisionError\<close> when \<open>b\<close> is zero.\<close>

definition py_truediv :: "'f float_ops \<Rightarrow> 'f \<Rightarrow> 'f \<Rightarrow> py_error + 'f" where
  "py_truediv F a b = (if fzero F b then Inl ZeroDivisionError else Inr (fdiv F a b))"

definition nonneg :: "'f float_ops \<Rightarrow> 'f \<Rightarrow> bool" where
  "nonneg F x \<longleftrightarrow> fle F (float_of F 0) x"

definition pos :: "'f float_ops \<Rightarrow> 'f \<Rightarrow> bool" where
  "pos F x \<longleftrightarrow> nonneg F x \<and> \<not> fzero F x"

text \<open>
  The facts about the arithmetic that the theorems on \<open>evaluate_dataset\<close> use: a
  non-negative integer plus \<open>1e-9\<close> is positive; a non-negative integer divided by a
  positive float is non-negative; the sum of two non-negative floats and \<open>1e-9\<close> is
  positive; \<open>0 / b\<close> is \<open>0\<close> for positive \<open>b\<close>; and \<open>2 * 0.0 * 0.0\<close> is \<open>0.0\<close>.
  They are what keeps every divisor of the loop away from zero. IEEE double precision
  has them on the integers in the range of a double, which the length of a list never
  leaves (beyond it Python's conversion raises \<open>OverflowError\<close>, which the model
  leaves out); rounding plays no part in them.
\<close>

definition float_laws :: "'f float_ops \<Rightarrow> bool" where
  "float_laws F \<longleftrightarrow>
     (\<forall>k. 0 \<le> k \<longrightarrow> pos F (fadd F (float_of F k) (eps F))) \<and>
     (\<forall>k b. 0 \<le> k \<and> pos F b \<longrightarrow> nonneg F (fdiv F (float_of F k) b)) \<and>
     (\<forall>a b. nonneg F a \<and> nonneg F b \<longrightarrow> pos F (fadd F (fadd F a b) (eps F))) \<and>
     (\<forall>b. pos F b \<longrightarrow> fdiv F (float_of F 0) b = float_of F 0) \<and>
     fmul F (fmul F (float_of F 2) (float_of F 0)) (float_of F 0) = float_of F 0"

text \<open>
  Exact arithmetic on the real numbers is one arithmetic that satisfies the laws; it
  is the instance at which the theorems are exercised on concrete datasets.
\<close>

definition exact_ops :: "real float_ops" where
  "exact_ops =
     \<lparr>float_of = real_of_int, eps = 1 / 10 ^ 9, fadd = (+), fmul = (*), fdiv = (/),
      fzero = (\<lambda>x. x = 0), fle = (\<le>),
      np_mean = (\<lambda>xs. sum_list xs / real (length xs)),
      np_std = (\<lambda>xs. sqrt (sum_list (map (\<lambda>x. (x - sum_list xs / real (length xs))\<^sup>2) xs)
                           / real (length xs)))\<rparr>"

section \<open>\<open>evaluate_dataset\<close>\<close>

text \<open>
  The dictionary \<open>additional_metrics\<close> has four fixed keys. The local variables of the
  loop are the same four accumulators and the three score lists.
\<close>

record additional_metrics =
  true_positives :: int
  false_positives :: int
  false_negatives :: int
  incorrect_sentences_ids :: "nat list"

record 'f locals = additional_metrics +
  precision_scores :: "'f list"
  recall_scores :: "'f list"
  f_scores :: "'f list"

text \<open>The function returns a tuple of three pairs, or of three pairs and the dictionary.\<close>

datatype 'f dataset_result =
  Scores "'f \<times> 'f" "'f \<times> 'f" "'f \<times> 'f"
| ScoresAndMetrics "'f \<times> 'f" "'f \<times> 'f" "'f \<times> 'f" additional_metrics

text \<open>The body of the loop over the sentences (lines 75 to 89), for sentence \<open>i\<close>.\<close>

definition sentence_step ::
  "'f float_ops \<Rightarrow> 'a list list \<Rightarrow> 'a list list \<Rightarrow> nat \<Rightarrow> 'f locals \<Rightarrow> py_error + 'f locals" where
  "sentence_step F pred_tokens true_tokens i s =
     py_bind (item pred_tokens i) (\<lambda>p.
     py_bind (item true_tokens i) (\<lambda>t.
     py_bind (evaluate_sentence p t) (\<lambda>(tp, fp, fn).
       let s1 = s\<lparr>true_positives := true_positives s + tp,
                   false_positives := false_positives s + fp,
                   false_negatives := false_negatives s + fn\<rparr>
       in
     py_bind (py_truediv F (float_of F tp) (fadd F (float_of F (tp + fp)) (eps F))) (\<lambda>x.
       let s2 = s1\<lparr>precision_scores := precision_scores s1 @ [x]\<rparr> in
     py_bind (py_truediv F (float_of F tp) (fadd F (float_of F (tp + fn)) (eps F))) (\<lambda>y.
       let s3 = s2\<lparr>recall_scores := recall_scores s2 @ [y]\<rparr> in
     py_bind (py_truediv F
                (fmul F (fmul F (float_of F 2) (last (precision_scores s3)))
                   (last (recall_scores s3)))
                (fadd F (fadd F (last (precision_scores s3)) (last (recall_scores s3)))
                   (eps F))) (\<lambda>z.
       let s4 = s3\<lparr>f_scores := f_scores s3 @ [z]\<rparr> in
       Inr (if fp > 0 \<or> fn > 0
            then s4\<lparr>incorrect_sentences_ids := incorrect_sentences_ids s4 @ [i]\<rparr>
            else s4)))))))"

definition evaluate_dataset ::
  "'f float_ops \<Rightarrow> 'a list list \<Rightarrow> 'a list list \<Rightarrow> bool \<Rightarrow> py_error + 'f dataset_result" where
  "evaluate_dataset F pred_tokens true_tokens complete_metrics =
     (if length pred_tokens \<noteq> length true_tokens then Inl AssertionError
      else
        let n_sents = length pred_tokens;
            s0 = \<lparr>true_positives = 0, false_positives = 0, false_negatives = 0,
                  incorrect_sentences_ids = [],
                  precision_scores = [], recall_scores = [], f_scores = []\<rparr>
        in
        py_bind (for_range [0..<n_sents] (sentence_step F pred_tokens true_tokens) s0) (\<lambda>s.
          let precision = (np_mean F (precision_scores s), np_std F (precision_scores s));
              recall = (np_mean F (recall_scores s), np_std F (recall_scores s));
              f_score = (np_mean F (f_scores s), np_std F (f_scores s))
          in
          if complete_metrics then
            Inr (ScoresAndMetrics precision recall f_score
                   \<lparr>true_positives = true_positives s,
                    false_positives = false_positives s,
                    false_negatives = false_negatives s,
                    incorrect_sentences_ids = incorrect_sentences_ids s\<rparr>)
          else Inr (Scores precision recall f_score)))"

text \<open>The three score pairs of a result, whichever shape it has.\<close>

fun scores_of :: "'f dataset_result \<Rightarrow> ('f \<times> 'f) \<times> ('f \<times> 'f) \<times> ('f \<times> 'f)" where
  "scores_of (Scores p r f) = (p, r, f)"
| "scores_of (ScoresAndMetrics p r f m) = (p, r, f)"

section \<open>Closed forms for the loop of \<open>evaluate_dataset\<close>\<close>

text \<open>
  The values the loop computes for sentence \<open>i\<close>, written without the loop, and the
  local variables after \<open>k\<close> iterations. They state the loop invariant.
\<close>

definition tp_at :: "'a list list \<Rightarrow> 'a list list \<Rightarrow> nat \<Rightarrow> int" where
  "tp_at P T i = L_spec (P ! i) (T ! i) (length (P ! i)) (length (T ! i))"

definition fp_at :: "'a list list \<Rightarrow> 'a list list \<Rightarrow> nat \<Rightarrow> int" where
  "fp_at P T i = int (length (P ! i)) - tp_at P T i"

definition fn_at :: "'a list list \<Rightarrow> 'a list list \<Rightarrow> nat \<Rightarrow> int" where
  "fn_at P T i = int (length (T ! i)) - tp_at P T i"

definition precision_at :: "'f float_ops \<Rightarrow> 'a list list \<Rightarrow> 'a list list \<Rightarrow> nat \<Rightarrow> 'f" where
  "precision_at F P T i =
     fdiv F (float_of F (tp_at P T i)) (fadd F (float_of F (tp_at P T i + fp_at P T i)) (eps F))"

definition recall_at :: "'f float_ops \<Rightarrow> 'a list list \<Rightarrow> 'a list list \<Rightarrow> nat \<Rightarrow> 'f" where
  "recall_at F P T i =
     fdiv F (float_of F (tp_at P T i)) (fadd F (float_of F (tp_at P T i + fn_at P T i)) (eps F))"

definition f_at :: "'f float_ops \<Rightarrow> 'a list list \<Rightarrow> 'a list list \<Rightarrow> nat \<Rightarrow> 'f" where
  "f_at F P T i =
     fdiv F (fmul F (fmul F (float_of F 2) (precision_at F P T i)) (recall_at F P T i))
       (fadd F (fadd F (precision_at F P T i) (recall_at F P T i)) (eps F))"

definition locals_after :: "'f float_ops \<Rightarrow> 'a list list \<Rightarrow> 'a list list \<Rightarrow> nat \<Rightarrow> 'f locals" where
  "locals_after F P T k =
     \<lparr>true_positives = sum_list (map (tp_at P T) [0..<k]),
      false_positives = sum_list (map (fp_at P T) [0..<k]),
      false_negatives = sum_list (map (fn_at P T) [0..<k]),
      incorrect_sentences_ids = filter (\<lambda>i. fp_at P T i > 0 \<or> fn_at P T i > 0) [0..<k],
      precision_scores = map (precision_at F P T) [0..<k],
      recall_scores = map (recall_at F P T) [0..<k],
      f_scores = map (f_at F P T) [0..<k]\<rparr>"

section \<open>Sequencing and loops\<close>

lemma py_bind_simps [simp]:
  "py_bind (Inl e) f = Inl e" "py_bind (Inr v) f = f v"
  by (simp_all add: py_bind_def)

lemma for_range_append:
  "for_range (ks @ ks') body s = py_bind (for_range ks body s) (for_range ks' body)"
  by (induction ks arbitrary: s) (auto split: sum.splits)

lemma for_range_upt_invariant:
  assumes "I 0 s"
    and "\<And>q t. q < k \<Longrightarrow> I q t \<Longrightarrow> \<exists>t'. body q t = Inr t' \<and> I (Suc q) t'"
  shows "\<exists>s'. for_range [0..<k] body s = Inr s' \<and> I k s'"
  using assms(2)
proof (induction k)
  case 0
  then show ?case using assms(1) by simp
next
  case (Suc k)
  then obtain s1 where s1: "for_range [0..<k] body s = Inr s1" "I k s1"
    by (metis less_Suc_eq)
  from Suc.prems [of k s1] s1 obtain s2 where "body k s1 = Inr s2" "I (Suc k) s2"
    by auto
  with s1 show ?case
    by (simp add: for_range_append)
qed

lemma tbl_get_filled:
  "filled left right L i j \<Longrightarrow> r \<le> length left \<Longrightarrow> c \<le> length right \<Longrightarrow>
   r < i \<or> (r = i \<and> c < j) \<Longrightarrow> tbl_get L r c = Inr (Some (L_spec left right r c))"
  by (simp add: filled_def tbl_get_def item_def)

lemma tbl_set_filled:
  assumes "filled left right L i j" "i \<le> length left" "j \<le> length right"
    and "v = L_spec left right i j"
  shows "\<exists>L'. tbl_set L i j v = Inr L' \<and> filled left right L' i (Suc j)"
proof -
  let ?L' = "L[i := (L ! i)[j := Some v]]"
  have "tbl_set L i j v = Inr ?L'"
    using assms by (simp add: tbl_set_def item_def filled_def)
  moreover have "filled left right ?L' i (Suc j)"
  proof -
    have iL: "i < length L" and jL: "j < length (L ! i)"
      using assms by (simp_all add: filled_def)
    have cell: "?L' ! r ! c = (if r = i \<and> c = j then Some v else L ! r ! c)" for r c
      using iL jL by (cases "r = i") (simp_all add: nth_list_update)
    have len: "length (?L' ! r) = length (L ! r)" for r
      using iL by (cases "r = i") simp_all
    show ?thesis
      using assms unfolding filled_def cell len
      by (auto simp: less_Suc_eq)
  qed
  ultimately show ?thesis by blast
qed

lemma lcts_cell_filled:
  assumes "filled left right L i j" "i \<le> length left" "j \<le> length right"
  shows "\<exists>L'. lcts_cell left right i j L = Inr L' \<and> filled left right L' i (Suc j)"
proof (cases "i = 0 \<or> j = 0")
  case True
  then have "L_spec left right i j = 0" by (cases i; cases j) auto
  with True tbl_set_filled [OF assms, of 0] show ?thesis
    by (simp add: lcts_cell_def)
next
  case False
  then obtain i' j' where ij: "i = Suc i'" "j = Suc j'"
    by (cases i; cases j) auto
  have g1: "tbl_get L i' j' = Inr (Some (L_spec left right i' j'))"
    using tbl_get_filled [OF assms(1), of i' j'] assms(2,3) ij by simp
  have g2: "tbl_get L i' j = Inr (Some (L_spec left right i' j))"
    using tbl_get_filled [OF assms(1), of i' j] assms(2,3) ij by simp
  have g3: "tbl_get L i j' = Inr (Some (L_spec left right i j'))"
    using tbl_get_filled [OF assms(1), of i j'] assms(2,3) ij by simp
  show ?thesis
  proof (cases "left ! i' = right ! j'")
    case True
    then have "L_spec left right i j = L_spec left right i' j' + 1"
      by (simp add: ij)
    with tbl_set_filled [OF assms, of "L_spec left right i' j' + 1"] True g1 assms(2,3)
    show ?thesis
      by (simp add: lcts_cell_def ij item_def num_def)
  next
    case neq: False
    then have "L_spec left right i j = max (L_spec left right i' j) (L_spec left right i j')"
      by (simp add: ij)
    with tbl_set_filled [OF assms, of "max (L_spec left right i' j) (L_spec left right i j')"]
      neq g2 g3 assms(2,3)
    show ?thesis
      by (simp add: lcts_cell_def ij item_def num_def)
  qed
qed


lemma filled_next_row:
  "filled left right L i (Suc (length right)) \<Longrightarrow> filled left right L (Suc i) 0"
  unfolding filled_def by (simp add: less_Suc_eq) (metis le_neq_implies_less)

lemma lcts_row_filled:
  assumes "filled left right L i 0" "i \<le> length left"
  shows "\<exists>L'. for_range [0..<length right + 1] (\<lambda>j. lcts_cell left right i j) L = Inr L'
           \<and> filled left right L' (Suc i) 0"
proof -
  have "\<exists>L'. for_range [0..<length right + 1] (\<lambda>j. lcts_cell left right i j) L = Inr L'
           \<and> filled left right L' i (length right + 1)"
    using assms(1)
  proof (rule for_range_upt_invariant [where I = "\<lambda>j L. filled left right L i j"])
    fix q t
    assume "q < length right + 1" "filled left right t i q"
    then show "\<exists>t'. lcts_cell left right i q t = Inr t' \<and> filled left right t' i (Suc q)"
      using lcts_cell_filled [of left right t i q] assms(2) by simp
  qed
  then show ?thesis
    using filled_next_row by fastforce
qed

lemma filled_init:
  "filled left right (map (\<lambda>i. replicate (length right + 1) None) [0..<length left + 1]) 0 0"
  unfolding filled_def by (auto simp: nth_append less_Suc_eq_le simp del: upt_Suc)

lemma lcts_table_filled:
  "\<exists>L. lcts_table left right = Inr L \<and> filled left right L (Suc (length left)) 0"
proof -
  let ?L0 = "map (\<lambda>i. replicate (length right + 1) None) [0..<length left + 1]"
  let ?row = "\<lambda>i. for_range [0..<length right + 1] (\<lambda>j. lcts_cell left right i j)"
  have "\<exists>L. for_range [0..<length left + 1] ?row ?L0 = Inr L
          \<and> filled left right L (length left + 1) 0"
    using filled_init
  proof (rule for_range_upt_invariant [where I = "\<lambda>i L. filled left right L i 0"])
    fix q t
    assume "q < length left + 1" "filled left right t q 0"
    then show "\<exists>t'. ?row q t = Inr t' \<and> filled left right t' (Suc q) 0"
      using lcts_row_filled [of left right t q] by simp
  qed
  then show ?thesis
    by (simp add: lcts_table_def Let_def)
qed

lemma lcts_table_cells:
  "\<exists>L. lcts_table left right = Inr L \<and>
     (\<forall>i j. i \<le> length left \<and> j \<le> length right \<longrightarrow>
        tbl_get L i j = Inr (Some (L_spec left right i j)))"
  using lcts_table_filled [of left right] tbl_get_filled
  by (metis le_imp_less_Suc)

section \<open>The recurrence and common subsequences\<close>

lemma subseq_snoc_cases:
  assumes "subseq zs (xs @ [x])"
  shows "subseq zs xs \<or> (\<exists>zs'. zs = zs' @ [x] \<and> subseq zs' xs)"
proof -
  from assms obtain zs1 zs2 where z: "zs = zs1 @ zs2" "subseq zs1 xs" "subseq zs2 [x]"
    by (rule subseq_appendE)
  show ?thesis
  proof (cases zs2)
    case Nil
    with z show ?thesis by simp
  next
    case (Cons y ys)
    with z(3) have "zs2 = [x]" by (cases ys) (auto split: if_splits)
    with z show ?thesis by blast
  qed
qed

lemma subseq_snoc_neq:
  "subseq (zs @ [x]) (ys @ [y]) \<Longrightarrow> x \<noteq> y \<Longrightarrow> subseq (zs @ [x]) ys"
  using subseq_snoc_cases [of "zs @ [x]" ys y] by auto

lemma subseq_butlast_snoc:
  "subseq (zs @ [x]) ys \<Longrightarrow> subseq zs ys"
proof -
  have "subseq zs (zs @ [x])" by (rule subseq_rev_drop_many) simp
  then show "subseq (zs @ [x]) ys \<Longrightarrow> subseq zs ys"
    by (rule subseq_order.trans)
qed

lemma L_spec_attained:
  "i \<le> length left \<Longrightarrow> j \<le> length right \<Longrightarrow>
   \<exists>zs. subseq zs (take i left) \<and> subseq zs (take j right) \<and> int (length zs) = L_spec left right i j"
proof (induction left right i j rule: L_spec.induct)
  case (1 left right j)
  then show ?case by simp
next
  case (2 left right i)
  then show ?case by simp
next
  case (3 left right i j)
  from "3.prems" have lt: "i < length left" "j < length right" by simp_all
  note tk = take_Suc_conv_app_nth [OF lt(1)] take_Suc_conv_app_nth [OF lt(2)]
  show ?case
  proof (cases "left ! i = right ! j")
    case True
    with "3.IH"(1) lt obtain zs where
      "subseq zs (take i left)" "subseq zs (take j right)" "int (length zs) = L_spec left right i j"
      by auto
    with True have "subseq (zs @ [left ! i]) (take (Suc i) left)"
      "subseq (zs @ [left ! i]) (take (Suc j) right)"
      "int (length (zs @ [left ! i])) = L_spec left right (Suc i) (Suc j)"
      by (simp_all add: tk)
    then show ?thesis by blast
  next
    case False
    show ?thesis
    proof (cases "L_spec left right (Suc i) j \<le> L_spec left right i (Suc j)")
      case True
      from "3.IH"(2) [OF False] lt "3.prems" obtain zs where
        "subseq zs (take i left)" "subseq zs (take (Suc j) right)"
        "int (length zs) = L_spec left right i (Suc j)"
        by auto
      with False True show ?thesis
        by (auto simp: tk(1) intro: subseq_rev_drop_many)
    next
      case le: False
      from "3.IH"(3) [OF False] lt "3.prems" obtain zs where
        "subseq zs (take (Suc i) left)" "subseq zs (take j right)"
        "int (length zs) = L_spec left right (Suc i) j"
        by auto
      with False le show ?thesis
        by (auto simp: tk(2) intro: subseq_rev_drop_many)
    qed
  qed
qed

lemma L_spec_bound:
  "i \<le> length left \<Longrightarrow> j \<le> length right \<Longrightarrow>
   subseq zs (take i left) \<Longrightarrow> subseq zs (take j right) \<Longrightarrow>
   int (length zs) \<le> L_spec left right i j"
proof (induction left right i j arbitrary: zs rule: L_spec.induct)
  case (1 left right j)
  then show ?case by simp
next
  case (2 left right i)
  then show ?case by simp
next
  case (3 left right i j)
  from "3.prems" have lt: "i < length left" "j < length right" by simp_all
  note tk = take_Suc_conv_app_nth [OF lt(1)] take_Suc_conv_app_nth [OF lt(2)]
  from "3.prems"(3,4) have sl: "subseq zs (take i left @ [left ! i])"
    and sr: "subseq zs (take j right @ [right ! j])"
    by (simp_all add: tk)
  show ?case
  proof (cases "left ! i = right ! j")
    case True
    have "\<exists>ws. subseq ws (take i left) \<and> subseq ws (take j right) \<and> length zs \<le> length ws + 1"
    proof (cases "subseq zs (take i left)")
      case l: True
      show ?thesis
      proof (cases "subseq zs (take j right)")
        case True
        with l have "subseq zs (take i left) \<and> subseq zs (take j right) \<and> length zs \<le> length zs + 1"
          by simp
        then show ?thesis by (rule exI)
      next
        case False
        with subseq_snoc_cases [OF sr]
        obtain ws where ws: "zs = ws @ [right ! j]" "subseq ws (take j right)"
          by blast
        from l ws(1) have "subseq ws (take i left)"
          using subseq_butlast_snoc [of ws "right ! j" "take i left"] by simp
        moreover from ws(1) have "length zs \<le> length ws + 1" by simp
        ultimately show ?thesis using ws(2) by blast
      qed
    next
      case False
      with subseq_snoc_cases [OF sl]
      obtain ws where ws: "zs = ws @ [left ! i]" "subseq ws (take i left)"
        by blast
      from sr have "subseq (ws @ [left ! i]) (take j right @ [left ! i])"
        unfolding ws(1) True .
      then have "subseq ws (take j right)"
        by (simp only: subseq_append)
      moreover from ws(1) have "length zs \<le> length ws + 1" by simp
      ultimately show ?thesis using ws(2) by blast
    qed
    then obtain ws where ws: "subseq ws (take i left)" "subseq ws (take j right)"
      "length zs \<le> length ws + 1" by blast
    from "3.IH"(1) [OF True _ _ ws(1,2)] lt have "int (length ws) \<le> L_spec left right i j"
      by simp
    with ws(3) True show ?thesis by simp
  next
    case neq: False
    show ?thesis
    proof (cases "subseq zs (take i left)")
      case True
      from "3.IH"(2) [OF neq _ _ True "3.prems"(4)] lt "3.prems"(2)
      have "int (length zs) \<le> L_spec left right i (Suc j)" by simp
      with neq show ?thesis by simp
    next
      case False
      with subseq_snoc_cases [OF sl]
      obtain ws where ws: "zs = ws @ [left ! i]" "subseq ws (take i left)"
        by blast
      from sr neq have "subseq zs (take j right)"
        unfolding ws(1) by (rule subseq_snoc_neq)
      from "3.IH"(3) [OF neq _ _ "3.prems"(3) this] lt "3.prems"(1)
      have "int (length zs) \<le> L_spec left right (Suc i) j" by simp
      with neq show ?thesis by simp
    qed
  qed
qed

lemma L_spec_is_Max:
  "L_spec left right (length left) (length right) =
   int (Max {length zs |zs. subseq zs left \<and> subseq zs right})"
proof -
  let ?S = "{length zs |zs. subseq zs left \<and> subseq zs right}"
  obtain zs where zs: "subseq zs left" "subseq zs right"
    "int (length zs) = L_spec left right (length left) (length right)"
    using L_spec_attained [of "length left" left "length right" right] by auto
  have fin: "finite ?S"
  proof (rule finite_subset)
    show "?S \<subseteq> {..length left}" by (auto dest: list_emb_length)
  qed simp
  have "Max ?S = length zs"
  proof (rule Max_eqI [OF fin])
    fix n assume "n \<in> ?S"
    then obtain ws where "n = length ws" "subseq ws left" "subseq ws right" by blast
    with L_spec_bound [of "length left" left "length right" right ws] zs(3)
    show "n \<le> length zs" by simp
  next
    show "length zs \<in> ?S" using zs by blast
  qed
  with zs(3) show ?thesis by simp
qed

section \<open>The value of \<open>longest_common_token_sequence\<close>\<close>

lemma lcts_value:
  "longest_common_token_sequence left right =
     Inr (Some (L_spec left right (length left) (length right)))"
proof -
  obtain L where L: "lcts_table left right = Inr L"
    "\<forall>i j. i \<le> length left \<and> j \<le> length right \<longrightarrow>
        tbl_get L i j = Inr (Some (L_spec left right i j))"
    using lcts_table_cells [of left right] by blast
  then show ?thesis
    by (simp add: longest_common_token_sequence_def)
qed

lemma common_subseq_sym:
  "{length zs |zs. subseq zs A \<and> subseq zs B} = {length zs |zs. subseq zs B \<and> subseq zs A}"
  by blast

lemma Max_common_self:
  "Max {length zs |zs. subseq zs A \<and> subseq zs A} = length A"
proof (rule Max_eqI)
  show "finite {length zs |zs. subseq zs A \<and> subseq zs A}"
    by (rule finite_subset [of _ "{..length A}"]) (auto dest: list_emb_length)
  show "\<And>n. n \<in> {length zs |zs. subseq zs A \<and> subseq zs A} \<Longrightarrow> n \<le> length A"
    by (auto dest: list_emb_length)
  show "length A \<in> {length zs |zs. subseq zs A \<and> subseq zs A}"
    by auto
qed

lemma L_spec_range:
  "0 \<le> L_spec left right (length left) (length right)
   \<and> L_spec left right (length left) (length right) \<le> int (length left)
   \<and> L_spec left right (length left) (length right) \<le> int (length right)"
proof -
  obtain zs where zs: "subseq zs (take (length left) left)" "subseq zs (take (length right) right)"
    "int (length zs) = L_spec left right (length left) (length right)"
    using L_spec_attained [of "length left" left "length right" right] by auto
  then have "length zs \<le> length left" "length zs \<le> length right"
    by (auto dest: list_emb_length)
  with zs(3) show ?thesis by linarith
qed

section \<open>The value of \<open>evaluate_sentence\<close>\<close>

lemma evaluate_sentence_value:
  "evaluate_sentence pred_tokens true_tokens =
     Inr (L_spec pred_tokens true_tokens (length pred_tokens) (length true_tokens),
          int (length pred_tokens) - L_spec pred_tokens true_tokens (length pred_tokens) (length true_tokens),
          int (length true_tokens) - L_spec pred_tokens true_tokens (length pred_tokens) (length true_tokens))"
  by (simp add: evaluate_sentence_def lcts_value num_def)

lemma evaluate_sentence_example_equal: "evaluate_sentence [''Oi''] [''Oi''] = Inr (1, 0, 0)"
  by code_simp

lemma evaluate_sentence_example_extra: "evaluate_sentence [''a'', ''b'', ''c''] [''a'', ''c''] = Inr (2, 1, 0)"
  by code_simp

section \<open>The loop of \<open>evaluate_dataset\<close>\<close>

lemma counts_at_range:
  "0 \<le> tp_at P T i" "0 \<le> fp_at P T i" "0 \<le> fn_at P T i"
  "tp_at P T i + fp_at P T i = int (length (P ! i))"
  "tp_at P T i + fn_at P T i = int (length (T ! i))"
  using L_spec_range [of "P ! i" "T ! i"]
  by (simp_all add: tp_at_def fp_at_def fn_at_def)

lemma evaluate_sentence_at:
  "evaluate_sentence (P ! i) (T ! i) = Inr (tp_at P T i, fp_at P T i, fn_at P T i)"
  by (simp add: evaluate_sentence_value tp_at_def fp_at_def fn_at_def)

lemma float_laws_denominator:
  "float_laws F \<Longrightarrow> 0 \<le> k \<Longrightarrow> pos F (fadd F (float_of F k) (eps F))"
  by (simp add: float_laws_def)

lemma float_laws_quotient:
  "float_laws F \<Longrightarrow> 0 \<le> k \<Longrightarrow> pos F b \<Longrightarrow> nonneg F (fdiv F (float_of F k) b)"
  unfolding float_laws_def by blast

lemma float_laws_sum:
  "float_laws F \<Longrightarrow> nonneg F a \<Longrightarrow> nonneg F b \<Longrightarrow> pos F (fadd F (fadd F a b) (eps F))"
  unfolding float_laws_def by blast

lemma float_laws_zero_quotient:
  "float_laws F \<Longrightarrow> pos F b \<Longrightarrow> fdiv F (float_of F 0) b = float_of F 0"
  unfolding float_laws_def by blast

lemma float_laws_zero_product:
  "float_laws F \<Longrightarrow> fmul F (fmul F (float_of F 2) (float_of F 0)) (float_of F 0) = float_of F 0"
  unfolding float_laws_def by blast

lemma pos_not_zero: "pos F x \<Longrightarrow> \<not> fzero F x"
  by (simp add: pos_def)

lemma precision_at_division:
  assumes "float_laws F"
  shows "py_truediv F (float_of F (tp_at P T i))
           (fadd F (float_of F (tp_at P T i + fp_at P T i)) (eps F)) = Inr (precision_at F P T i)"
    and "nonneg F (precision_at F P T i)"
proof -
  have d: "pos F (fadd F (float_of F (tp_at P T i + fp_at P T i)) (eps F))"
    using assms counts_at_range(4) [of P T i] by (simp add: float_laws_denominator)
  show "py_truediv F (float_of F (tp_at P T i))
           (fadd F (float_of F (tp_at P T i + fp_at P T i)) (eps F)) = Inr (precision_at F P T i)"
    using pos_not_zero [OF d] by (simp add: py_truediv_def precision_at_def)
  show "nonneg F (precision_at F P T i)"
    unfolding precision_at_def
    using assms counts_at_range(1) d by (rule float_laws_quotient)
qed

lemma recall_at_division:
  assumes "float_laws F"
  shows "py_truediv F (float_of F (tp_at P T i))
           (fadd F (float_of F (tp_at P T i + fn_at P T i)) (eps F)) = Inr (recall_at F P T i)"
    and "nonneg F (recall_at F P T i)"
proof -
  have d: "pos F (fadd F (float_of F (tp_at P T i + fn_at P T i)) (eps F))"
    using assms counts_at_range(5) [of P T i] by (simp add: float_laws_denominator)
  show "py_truediv F (float_of F (tp_at P T i))
           (fadd F (float_of F (tp_at P T i + fn_at P T i)) (eps F)) = Inr (recall_at F P T i)"
    using pos_not_zero [OF d] by (simp add: py_truediv_def recall_at_def)
  show "nonneg F (recall_at F P T i)"
    unfolding recall_at_def
    using assms counts_at_range(1) d by (rule float_laws_quotient)
qed

lemma f_at_division:
  assumes "float_laws F"
  shows "py_truediv F
           (fmul F (fmul F (float_of F 2) (precision_at F P T i)) (recall_at F P T i))
           (fadd F (fadd F (precision_at F P T i) (recall_at F P T i)) (eps F))
         = Inr (f_at F P T i)"
proof -
  have "pos F (fadd F (fadd F (precision_at F P T i) (recall_at F P T i)) (eps F))"
    using assms precision_at_division(2) [OF assms] recall_at_division(2) [OF assms]
    by (rule float_laws_sum)
  then show ?thesis
    using pos_not_zero by (simp add: py_truediv_def f_at_def)
qed

lemma sentence_step_locals_after:
  assumes "float_laws F" "i < length P" "i < length T"
  shows "sentence_step F P T i (locals_after F P T i) = Inr (locals_after F P T (Suc i))"
  using assms(2,3)
  by (simp add: sentence_step_def item_def evaluate_sentence_at Let_def
      precision_at_division(1) [OF assms(1)] recall_at_division(1) [OF assms(1)]
      f_at_division [OF assms(1)] locals_after_def)

lemma for_range_locals_after:
  assumes "float_laws F" "length P = length T" "k \<le> length P"
  shows "for_range [0..<k] (sentence_step F P T) (locals_after F P T 0)
           = Inr (locals_after F P T k)"
  using assms(3)
proof (induction k)
  case 0
  show ?case by simp
next
  case (Suc k)
  then have "for_range [0..<k] (sentence_step F P T) (locals_after F P T 0)
           = Inr (locals_after F P T k)" by simp
  moreover have "sentence_step F P T k (locals_after F P T k) = Inr (locals_after F P T (Suc k))"
    using assms(1,2) Suc.prems by (intro sentence_step_locals_after) simp_all
  ultimately show ?case
    by (simp add: for_range_append)
qed

lemma evaluate_dataset_value:
  assumes "float_laws F" "length P = length T"
  shows "evaluate_dataset F P T c =
    (let n = length P;
         p = (np_mean F (map (precision_at F P T) [0..<n]), np_std F (map (precision_at F P T) [0..<n]));
         r = (np_mean F (map (recall_at F P T) [0..<n]), np_std F (map (recall_at F P T) [0..<n]));
         f = (np_mean F (map (f_at F P T) [0..<n]), np_std F (map (f_at F P T) [0..<n]))
     in if c then
          Inr (ScoresAndMetrics p r f
            \<lparr>true_positives = sum_list (map (tp_at P T) [0..<n]),
             false_positives = sum_list (map (fp_at P T) [0..<n]),
             false_negatives = sum_list (map (fn_at P T) [0..<n]),
             incorrect_sentences_ids = filter (\<lambda>i. fp_at P T i > 0 \<or> fn_at P T i > 0) [0..<n]\<rparr>)
        else Inr (Scores p r f))"
proof -
  have s0: "\<lparr>true_positives = 0, false_positives = 0, false_negatives = 0,
             incorrect_sentences_ids = [],
             precision_scores = [], recall_scores = [], f_scores = []\<rparr> = locals_after F P T 0"
    by (simp add: locals_after_def)
  have "for_range [0..<length P] (sentence_step F P T) (locals_after F P T 0)
           = Inr (locals_after F P T (length P))"
    using assms by (intro for_range_locals_after) simp_all
  then show ?thesis
    using assms(2) unfolding evaluate_dataset_def s0
    by (simp add: Let_def locals_after_def)
qed

lemma exact_ops_laws: "float_laws exact_ops"
proof -
  have e: "(0 :: real) < 1 / 10 ^ 9" by simp
  have 1: "0 \<le> a \<Longrightarrow> 0 \<le> a + 1 / 10 ^ 9 \<and> a + 1 / 10 ^ 9 \<noteq> 0" for a :: real
    using e by linarith
  have 2: "0 \<le> a \<Longrightarrow> 0 \<le> b \<Longrightarrow> 0 \<le> a + b + 1 / 10 ^ 9 \<and> a + b + 1 / 10 ^ 9 \<noteq> 0"
    for a b :: real
    using e by linarith
  show ?thesis
    unfolding float_laws_def pos_def nonneg_def exact_ops_def
    using 1 2 by simp
qed

lemma nonneg_zero:
  assumes "float_laws F"
  shows "nonneg F (float_of F 0)"
proof -
  have d: "pos F (fadd F (float_of F 0) (eps F))"
    using assms by (simp add: float_laws_denominator)
  from float_laws_quotient [OF assms _ d, of 0] float_laws_zero_quotient [OF assms d]
  show ?thesis by simp
qed

lemma tp_at_empty:
  "P ! i = [] \<or> T ! i = [] \<Longrightarrow> tp_at P T i = 0"
  unfolding tp_at_def by (cases "P ! i"; cases "T ! i") auto

lemma scores_at_empty:
  assumes "float_laws F" "P ! i = [] \<or> T ! i = []"
  shows "precision_at F P T i = float_of F 0"
    and "recall_at F P T i = float_of F 0"
    and "f_at F P T i = float_of F 0"
proof -
  have tp: "tp_at P T i = 0" using assms(2) by (rule tp_at_empty)
  have "pos F (fadd F (float_of F (tp_at P T i + fp_at P T i)) (eps F))"
    using assms(1) counts_at_range(4) [of P T i] by (simp add: float_laws_denominator)
  then show p: "precision_at F P T i = float_of F 0"
    unfolding precision_at_def tp using assms(1) by (simp add: float_laws_zero_quotient)
  have "pos F (fadd F (float_of F (tp_at P T i + fn_at P T i)) (eps F))"
    using assms(1) counts_at_range(5) [of P T i] by (simp add: float_laws_denominator)
  then show r: "recall_at F P T i = float_of F 0"
    unfolding recall_at_def tp using assms(1) by (simp add: float_laws_zero_quotient)
  have "pos F (fadd F (fadd F (float_of F 0) (float_of F 0)) (eps F))"
    using assms(1) nonneg_zero [OF assms(1)] by (simp add: float_laws_sum)
  then show "f_at F P T i = float_of F 0"
    unfolding f_at_def p r using assms(1)
    by (simp add: float_laws_zero_product float_laws_zero_quotient)
qed

lemma singleton_nth: "length xs = Suc 0 \<Longrightarrow> xs = [xs ! 0]"
  by (cases xs) simp_all

lemma pair_nth: "length xs = Suc (Suc 0) \<Longrightarrow> xs = [xs ! 0, xs ! Suc 0]"
  by (cases xs; cases "tl xs") simp_all

lemma exact_ops_single:
  "np_mean exact_ops [x] = x" "np_std exact_ops [x] = 0"
  by (simp_all add: exact_ops_def)

section \<open>Claims\<close>

text \<open>
  Claim C1. For all token sequences \<open>left\<close> and \<open>right\<close>, the function fills its table
  without raising; every cell \<open>L[i][j]\<close> of the filled table holds the value of the
  recurrence \<open>L_spec\<close> (\<open>0\<close> in row and column \<open>0\<close>, \<open>L[i-1][j-1] + 1\<close> on equal
  tokens, the maximum of \<open>L[i-1][j]\<close> and \<open>L[i][j-1]\<close> otherwise); the function returns
  the cell \<open>L[n][m]\<close>, which is the greatest length of a list that is a subsequence of
  both inputs; and it returns \<open>0\<close> when an input is empty.
\<close>

theorem lcts_is_lcs_length:
  "\<exists>L. lcts_table left right = Inr L
     \<and> (\<forall>i \<le> length left. \<forall>j \<le> length right.
           tbl_get L i j = Inr (Some (L_spec left right i j)))
     \<and> longest_common_token_sequence left right = tbl_get L (length left) (length right)
     \<and> longest_common_token_sequence left right =
         Inr (Some (int (Max {length zs |zs. subseq zs left \<and> subseq zs right})))
     \<and> (left = [] \<or> right = [] \<longrightarrow> longest_common_token_sequence left right = Inr (Some 0))"
proof -
  obtain L where L: "lcts_table left right = Inr L"
    "\<forall>i j. i \<le> length left \<and> j \<le> length right \<longrightarrow>
        tbl_get L i j = Inr (Some (L_spec left right i j))"
    using lcts_table_cells [of left right] by blast
  have v: "longest_common_token_sequence left right =
      Inr (Some (L_spec left right (length left) (length right)))"
    by (rule lcts_value)
  have e: "L_spec left right (length left) (length right) = 0" if "left = [] \<or> right = []"
    using that by (cases left; cases right) auto
  show ?thesis
  proof (intro exI [of _ L] conjI)
    show "lcts_table left right = Inr L" by (rule L(1))
    show "\<forall>i \<le> length left. \<forall>j \<le> length right.
           tbl_get L i j = Inr (Some (L_spec left right i j))"
      using L(2) by blast
    show "longest_common_token_sequence left right = tbl_get L (length left) (length right)"
      using L by (simp add: longest_common_token_sequence_def)
    show "longest_common_token_sequence left right =
         Inr (Some (int (Max {length zs |zs. subseq zs left \<and> subseq zs right})))"
      using v by (simp only: L_spec_is_Max)
    show "left = [] \<or> right = [] \<longrightarrow> longest_common_token_sequence left right = Inr (Some 0)"
      using v e by simp
  qed
qed

theorem lcts_is_lcs_length_witness:
  "lcts_table [''a'', ''b'', ''c''] [''a'', ''c''] =
     Inr [[Some 0, Some 0, Some 0], [Some 0, Some 1, Some 1],
          [Some 0, Some 1, Some 1], [Some 0, Some 1, Some 2]]
   \<and> longest_common_token_sequence [''a'', ''b'', ''c''] [''a'', ''c''] = Inr (Some 2)
   \<and> Max {length zs |zs. subseq zs [''a'', ''b'', ''c''] \<and> subseq zs [''a'', ''c'']} = 2
   \<and> longest_common_token_sequence [] [''a'', ''c''] = Inr (Some 0)"
proof -
  have t: "lcts_table [''a'', ''b'', ''c''] [''a'', ''c''] =
     Inr [[Some 0, Some 0, Some 0], [Some 0, Some 1, Some 1],
          [Some 0, Some 1, Some 1], [Some 0, Some 1, Some 2]]"
    by code_simp
  from lcts_is_lcs_length [of "[''a'', ''b'', ''c'']" "[''a'', ''c'']"] t
  have a: "longest_common_token_sequence [''a'', ''b'', ''c''] [''a'', ''c''] = Inr (Some 2)"
    and b: "longest_common_token_sequence [''a'', ''b'', ''c''] [''a'', ''c''] =
         Inr (Some (int (Max {length zs |zs. subseq zs [''a'', ''b'', ''c''] \<and> subseq zs [''a'', ''c'']})))"
    by (auto simp: tbl_get_def item_def)
  from a b have c: "Max {length zs |zs. subseq zs [''a'', ''b'', ''c''] \<and> subseq zs [''a'', ''c'']} = 2"
    by simp
  from lcts_is_lcs_length [of "[]" "[''a'', ''c'']"]
  have d: "longest_common_token_sequence [] [''a'', ''c''] = Inr (Some 0)"
    by blast
  from t a c d show ?thesis by blast
qed

text \<open>
  Claim C2. \<open>evaluate_sentence\<close> returns \<open>(tp, fp, fn)\<close> where \<open>tp\<close> is the value of
  \<open>longest_common_token_sequence\<close> on the two sentences, \<open>fp = len(pred_tokens) - tp\<close>
  and \<open>fn = len(true_tokens) - tp\<close>; so \<open>tp + fp\<close> is the number of predicted tokens and
  \<open>tp + fn\<close> is the number of true tokens.
\<close>

theorem evaluate_sentence_counts:
  "\<exists>tp fp fn.
     longest_common_token_sequence pred_tokens true_tokens = Inr (Some tp)
     \<and> evaluate_sentence pred_tokens true_tokens = Inr (tp, fp, fn)
     \<and> fp = int (length pred_tokens) - tp
     \<and> fn = int (length true_tokens) - tp
     \<and> tp + fp = int (length pred_tokens)
     \<and> tp + fn = int (length true_tokens)"
  by (simp add: evaluate_sentence_value lcts_value)

text \<open>
  Claim C3. Under the laws of the arithmetic, \<open>evaluate_dataset\<close> raises exactly when
  the two lists of sentences differ in length, and then the assertion fails. On lists
  of equal length it returns the mean and standard deviation of three lists of
  per-sentence scores, and the scores of a sentence pair with an empty side are all
  zero.
\<close>

theorem evaluate_dataset_errors:
  assumes "float_laws F"
  shows "((\<exists>e. evaluate_dataset F P T c = Inl e) \<longleftrightarrow> length P \<noteq> length T)
    \<and> (length P \<noteq> length T \<longrightarrow> evaluate_dataset F P T c = Inl AssertionError)
    \<and> (length P = length T \<longrightarrow>
         (\<exists>ps rs fs res.
            evaluate_dataset F P T c = Inr res
            \<and> scores_of res =
                ((np_mean F ps, np_std F ps), (np_mean F rs, np_std F rs),
                 (np_mean F fs, np_std F fs))
            \<and> length ps = length P \<and> length rs = length P \<and> length fs = length P
            \<and> (\<forall>i < length P. P ! i = [] \<or> T ! i = [] \<longrightarrow>
                  ps ! i = float_of F 0 \<and> rs ! i = float_of F 0 \<and> fs ! i = float_of F 0)))"
proof (cases "length P = length T")
  case False
  then show ?thesis by (simp add: evaluate_dataset_def)
next
  case True
  let ?ps = "map (precision_at F P T) [0..<length P]"
  let ?rs = "map (recall_at F P T) [0..<length P]"
  let ?fs = "map (f_at F P T) [0..<length P]"
  obtain res where res: "evaluate_dataset F P T c = Inr res"
    "scores_of res =
       ((np_mean F ?ps, np_std F ?ps), (np_mean F ?rs, np_std F ?rs), (np_mean F ?fs, np_std F ?fs))"
    using evaluate_dataset_value [OF assms True, of c] by (cases c) (simp_all add: Let_def)
  have z: "\<forall>i < length P. P ! i = [] \<or> T ! i = [] \<longrightarrow>
             ?ps ! i = float_of F 0 \<and> ?rs ! i = float_of F 0 \<and> ?fs ! i = float_of F 0"
  proof (intro allI impI)
    fix i assume "i < length P" "P ! i = [] \<or> T ! i = []"
    then show "?ps ! i = float_of F 0 \<and> ?rs ! i = float_of F 0 \<and> ?fs ! i = float_of F 0"
      by (simp add: scores_at_empty [OF assms])
  qed
  have "\<exists>ps rs fs res.
            evaluate_dataset F P T c = Inr res
            \<and> scores_of res =
                ((np_mean F ps, np_std F ps), (np_mean F rs, np_std F rs),
                 (np_mean F fs, np_std F fs))
            \<and> length ps = length P \<and> length rs = length P \<and> length fs = length P
            \<and> (\<forall>i < length P. P ! i = [] \<or> T ! i = [] \<longrightarrow>
                  ps ! i = float_of F 0 \<and> rs ! i = float_of F 0 \<and> fs ! i = float_of F 0)"
    apply (rule exI [of _ ?ps], rule exI [of _ ?rs], rule exI [of _ ?fs], rule exI [of _ res])
    using res z by simp
  with True res(1) show ?thesis by simp
qed

theorem evaluate_dataset_errors_witness:
  "float_laws exact_ops
   \<and> evaluate_dataset exact_ops [[''Oi'']] [] False = Inl AssertionError
   \<and> (\<exists>res. evaluate_dataset exact_ops [[]] [[''Oi'']] False = Inr res
         \<and> scores_of res = ((0, 0), (0, 0), (0, 0)))"
proof -
  have a: "evaluate_dataset exact_ops [[''Oi'']] [] False = Inl AssertionError"
    using evaluate_dataset_errors [OF exact_ops_laws, of "[[''Oi'']]" "[]" False] by simp
  from evaluate_dataset_errors [OF exact_ops_laws, of "[[]]" "[[''Oi'']]" False]
  obtain ps rs fs res where r: "evaluate_dataset exact_ops [[]] [[''Oi'']] False = Inr res"
    "scores_of res = ((np_mean exact_ops ps, np_std exact_ops ps),
        (np_mean exact_ops rs, np_std exact_ops rs), (np_mean exact_ops fs, np_std exact_ops fs))"
    "length ps = Suc 0" "length rs = Suc 0" "length fs = Suc 0"
    "ps ! 0 = float_of exact_ops 0" "rs ! 0 = float_of exact_ops 0" "fs ! 0 = float_of exact_ops 0"
    by auto
  have z: "float_of exact_ops 0 = 0" by (simp add: exact_ops_def)
  have "ps = [0]" "rs = [0]" "fs = [0]"
    using singleton_nth [OF r(3)] singleton_nth [OF r(4)] singleton_nth [OF r(5)] r(6,7,8) z
    by simp_all
  with r(2) have "scores_of res = ((0, 0), (0, 0), (0, 0))"
    by (simp add: exact_ops_single)
  with a r(1) exact_ops_laws show ?thesis by blast
qed

text \<open>
  Claim C4. Under the laws of the arithmetic and for lists of equal length, there are
  per-sentence counts \<open>tps\<close>, \<open>fps\<close>, \<open>fns\<close> and scores \<open>ps\<close>, \<open>rs\<close>, \<open>fs\<close>, one per
  sentence, such that sentence \<open>i\<close> has the counts that \<open>evaluate_sentence\<close> returns,
  precision \<open>tp / (tp + fp + 1e-9)\<close>, recall \<open>tp / (tp + fn + 1e-9)\<close> and f-score
  \<open>2 * precision * recall / (precision + recall + 1e-9)\<close>, and \<open>evaluate_dataset\<close>
  returns for each of the three lists of scores its mean and its standard deviation.
\<close>

theorem evaluate_dataset_scores:
  assumes "float_laws F" "length P = length T"
  shows "\<exists>tps fps fns ps rs fs res.
      length tps = length P \<and> length fps = length P \<and> length fns = length P
      \<and> length ps = length P \<and> length rs = length P \<and> length fs = length P
      \<and> (\<forall>i < length P.
            evaluate_sentence (P ! i) (T ! i) = Inr (tps ! i, fps ! i, fns ! i)
            \<and> py_truediv F (float_of F (tps ! i))
                 (fadd F (float_of F (tps ! i + fps ! i)) (eps F)) = Inr (ps ! i)
            \<and> py_truediv F (float_of F (tps ! i))
                 (fadd F (float_of F (tps ! i + fns ! i)) (eps F)) = Inr (rs ! i)
            \<and> py_truediv F (fmul F (fmul F (float_of F 2) (ps ! i)) (rs ! i))
                 (fadd F (fadd F (ps ! i) (rs ! i)) (eps F)) = Inr (fs ! i))
      \<and> evaluate_dataset F P T c = Inr res
      \<and> scores_of res =
          ((np_mean F ps, np_std F ps), (np_mean F rs, np_std F rs),
           (np_mean F fs, np_std F fs))"
proof -
  let ?n = "length P"
  let ?tps = "map (tp_at P T) [0..<?n]"
  let ?fps = "map (fp_at P T) [0..<?n]"
  let ?fns = "map (fn_at P T) [0..<?n]"
  let ?ps = "map (precision_at F P T) [0..<?n]"
  let ?rs = "map (recall_at F P T) [0..<?n]"
  let ?fs = "map (f_at F P T) [0..<?n]"
  obtain res where res: "evaluate_dataset F P T c = Inr res"
    "scores_of res =
       ((np_mean F ?ps, np_std F ?ps), (np_mean F ?rs, np_std F ?rs), (np_mean F ?fs, np_std F ?fs))"
    using evaluate_dataset_value [OF assms, of c] by (cases c) (simp_all add: Let_def)
  have per: "\<forall>i < ?n.
            evaluate_sentence (P ! i) (T ! i) = Inr (?tps ! i, ?fps ! i, ?fns ! i)
            \<and> py_truediv F (float_of F (?tps ! i))
                 (fadd F (float_of F (?tps ! i + ?fps ! i)) (eps F)) = Inr (?ps ! i)
            \<and> py_truediv F (float_of F (?tps ! i))
                 (fadd F (float_of F (?tps ! i + ?fns ! i)) (eps F)) = Inr (?rs ! i)
            \<and> py_truediv F (fmul F (fmul F (float_of F 2) (?ps ! i)) (?rs ! i))
                 (fadd F (fadd F (?ps ! i) (?rs ! i)) (eps F)) = Inr (?fs ! i)"
    by (simp add: evaluate_sentence_at precision_at_division(1) [OF assms(1)]
        recall_at_division(1) [OF assms(1)] f_at_division [OF assms(1)])
  show ?thesis
    apply (rule exI [of _ ?tps], rule exI [of _ ?fps], rule exI [of _ ?fns])
    apply (rule exI [of _ ?ps], rule exI [of _ ?rs], rule exI [of _ ?fs], rule exI [of _ res])
    using res per by simp
qed

theorem evaluate_dataset_scores_witness:
  "float_laws exact_ops \<and> length [[''Oi'']] = length [[''Oi'']]
   \<and> (\<exists>res f. evaluate_dataset exact_ops [[''Oi'']] [[''Oi'']] False = Inr res
         \<and> scores_of res = ((1 / (1 + 1 / 10 ^ 9), 0), (1 / (1 + 1 / 10 ^ 9), 0), (f, 0)))"
proof -
  have len: "length [[''Oi'']] = length [[''Oi'']]" by simp
  from evaluate_dataset_scores [OF exact_ops_laws len, of False]
  obtain tps fps fns ps rs fs res where r:
    "length ps = Suc 0" "length rs = Suc 0" "length fs = Suc 0"
    "evaluate_sentence [''Oi''] [''Oi''] = Inr (tps ! 0, fps ! 0, fns ! 0)"
    "py_truediv exact_ops (float_of exact_ops (tps ! 0))
       (fadd exact_ops (float_of exact_ops (tps ! 0 + fps ! 0)) (eps exact_ops)) = Inr (ps ! 0)"
    "py_truediv exact_ops (float_of exact_ops (tps ! 0))
       (fadd exact_ops (float_of exact_ops (tps ! 0 + fns ! 0)) (eps exact_ops)) = Inr (rs ! 0)"
    "evaluate_dataset exact_ops [[''Oi'']] [[''Oi'']] False = Inr res"
    "scores_of res = ((np_mean exact_ops ps, np_std exact_ops ps),
        (np_mean exact_ops rs, np_std exact_ops rs), (np_mean exact_ops fs, np_std exact_ops fs))"
    by auto
  from r(4) have c: "tps ! 0 = 1" "fps ! 0 = 0" "fns ! 0 = 0"
    by (simp_all add: evaluate_sentence_example_equal)
  from r(5,6) have "ps ! 0 = 1 / (1 + 1 / 10 ^ 9)" "rs ! 0 = 1 / (1 + 1 / 10 ^ 9)"
    unfolding c by (simp_all add: py_truediv_def exact_ops_def split: if_splits)
  with singleton_nth [OF r(1)] singleton_nth [OF r(2)] singleton_nth [OF r(3)]
  have "ps = [1 / (1 + 1 / 10 ^ 9)]" "rs = [1 / (1 + 1 / 10 ^ 9)]" "fs = [fs ! 0]"
    by simp_all
  with r(8) have "scores_of res =
      ((1 / (1 + 1 / 10 ^ 9), 0), (1 / (1 + 1 / 10 ^ 9), 0), (fs ! 0, 0))"
    by (metis exact_ops_single)
  with r(7) exact_ops_laws len show ?thesis by blast
qed

text \<open>
  Claim C5. Under the laws of the arithmetic and for lists of equal length, with
  \<open>complete_metrics\<close> true the result carries, besides the scores, the sums of the
  per-sentence counts over the dataset and the indices \<open>i\<close>, in the order of the
  sentences, of exactly the sentences with \<open>fp > 0\<close> or \<open>fn > 0\<close>; with the flag false the
  result is the three score pairs alone.
\<close>

theorem evaluate_dataset_complete_metrics:
  assumes "float_laws F" "length P = length T"
  shows "\<exists>tps fps fns p r f.
      length tps = length P \<and> length fps = length P \<and> length fns = length P
      \<and> (\<forall>i < length P. evaluate_sentence (P ! i) (T ! i) = Inr (tps ! i, fps ! i, fns ! i))
      \<and> evaluate_dataset F P T True =
          Inr (ScoresAndMetrics p r f
                 \<lparr>true_positives = sum_list tps,
                  false_positives = sum_list fps,
                  false_negatives = sum_list fns,
                  incorrect_sentences_ids =
                    filter (\<lambda>i. fps ! i > 0 \<or> fns ! i > 0) [0..<length P]\<rparr>)
      \<and> evaluate_dataset F P T False = Inr (Scores p r f)"
proof -
  let ?n = "length P"
  let ?tps = "map (tp_at P T) [0..<?n]"
  let ?fps = "map (fp_at P T) [0..<?n]"
  let ?fns = "map (fn_at P T) [0..<?n]"
  have flt: "filter (\<lambda>i. ?fps ! i > 0 \<or> ?fns ! i > 0) [0..<?n]
      = filter (\<lambda>i. fp_at P T i > 0 \<or> fn_at P T i > 0) [0..<?n]"
    by (rule filter_cong) simp_all
  show ?thesis
    apply (rule exI [of _ ?tps], rule exI [of _ ?fps], rule exI [of _ ?fns])
    apply (simp only: flt)
    apply (simp add: evaluate_dataset_value [OF assms] Let_def evaluate_sentence_at)
    done
qed

theorem evaluate_dataset_complete_metrics_witness:
  "float_laws exact_ops \<and> length [[''a'', ''b'', ''c''], [''Oi'']] = length [[''a'', ''c''], [''Oi'']]
   \<and> (\<exists>p r f.
        evaluate_dataset exact_ops [[''a'', ''b'', ''c''], [''Oi'']] [[''a'', ''c''], [''Oi'']] True =
          Inr (ScoresAndMetrics p r f
                 \<lparr>true_positives = 3, false_positives = 1, false_negatives = 0,
                  incorrect_sentences_ids = [0]\<rparr>)
        \<and> evaluate_dataset exact_ops [[''a'', ''b'', ''c''], [''Oi'']] [[''a'', ''c''], [''Oi'']] False =
            Inr (Scores p r f))"
proof -
  let ?P = "[[''a'', ''b'', ''c''], [''Oi'']]" and ?T = "[[''a'', ''c''], [''Oi'']]"
  have len: "length ?P = length ?T" by simp
  from evaluate_dataset_complete_metrics [OF exact_ops_laws len]
  obtain tps fps fns p r f where r:
    "length tps = Suc (Suc 0)" "length fps = Suc (Suc 0)" "length fns = Suc (Suc 0)"
    "\<forall>i < length ?P. evaluate_sentence (?P ! i) (?T ! i) = Inr (tps ! i, fps ! i, fns ! i)"
    "evaluate_dataset exact_ops ?P ?T True =
       Inr (ScoresAndMetrics p r f
              \<lparr>true_positives = sum_list tps, false_positives = sum_list fps,
               false_negatives = sum_list fns,
               incorrect_sentences_ids =
                 filter (\<lambda>i. fps ! i > 0 \<or> fns ! i > 0) [0..<length ?P]\<rparr>)"
    "evaluate_dataset exact_ops ?P ?T False = Inr (Scores p r f)"
    by auto
  from r(4) [rule_format, of 0] r(4) [rule_format, of "Suc 0"] have c: "tps ! 0 = 2" "fps ! 0 = 1" "fns ! 0 = 0"
    "tps ! Suc 0 = 1" "fps ! Suc 0 = 0" "fns ! Suc 0 = 0"
    by (simp_all add: evaluate_sentence_example_equal evaluate_sentence_example_extra)
  have l: "tps = [2, 1]" "fps = [1, 0]" "fns = [0, 0]"
    using pair_nth [OF r(1)] pair_nth [OF r(2)] pair_nth [OF r(3)] c by simp_all
  have u: "[0..<length ?P] = [0, Suc 0]" by (simp add: upt_rec)
  from r(5) have "evaluate_dataset exact_ops ?P ?T True =
       Inr (ScoresAndMetrics p r f
              \<lparr>true_positives = 3, false_positives = 1, false_negatives = 0,
               incorrect_sentences_ids = [0]\<rparr>)"
    unfolding u l by simp
  with r(6) exact_ops_laws len show ?thesis by blast
qed

text \<open>
  Claim C6. The counts that \<open>evaluate_sentence\<close> returns satisfy
  \<open>tp \<le> min(len(pred_tokens), len(true_tokens))\<close>, \<open>fp \<ge> 0\<close> and \<open>fn \<ge> 0\<close>.
\<close>

theorem evaluate_sentence_bounds:
  "\<exists>tp fp fn.
     evaluate_sentence pred_tokens true_tokens = Inr (tp, fp, fn)
     \<and> tp \<le> min (int (length pred_tokens)) (int (length true_tokens))
     \<and> 0 \<le> fp \<and> 0 \<le> fn"
  using L_spec_range [of pred_tokens true_tokens]
  by (simp add: evaluate_sentence_value)

text \<open>
  Claim C7. \<open>longest_common_token_sequence(A, B)\<close> and
  \<open>longest_common_token_sequence(B, A)\<close> are equal.
\<close>

theorem lcts_symmetric:
  "longest_common_token_sequence A B = longest_common_token_sequence B A"
proof -
  have "L_spec A B (length A) (length B) = L_spec B A (length B) (length A)"
    unfolding L_spec_is_Max by (simp only: common_subseq_sym [of A B])
  then show ?thesis by (simp only: lcts_value)
qed

text \<open>
  Claim C8. \<open>longest_common_token_sequence(A, A)\<close> is \<open>len(A)\<close>, and
  \<open>longest_common_token_sequence(A, [])\<close> is \<open>0\<close>.
\<close>

theorem lcts_self_and_empty:
  "longest_common_token_sequence A A = Inr (Some (int (length A)))
   \<and> longest_common_token_sequence A [] = Inr (Some 0)"
proof
  show "longest_common_token_sequence A A = Inr (Some (int (length A)))"
    by (simp only: lcts_value L_spec_is_Max Max_common_self)
  have "L_spec A [] (length A) 0 = 0" by (cases A) simp_all
  then show "longest_common_token_sequence A [] = Inr (Some 0)"
    using lcts_value [of A "[]"] by simp
qed

text \<open>
  Claim C9. Under the laws of the arithmetic and for lists of equal length, the three
  score pairs that \<open>evaluate_dataset\<close> returns with \<open>complete_metrics\<close> true are those it
  returns with the flag false; the flag only adds the dictionary.
\<close>

theorem complete_metrics_keeps_scores:
  assumes "float_laws F" "length P = length T"
  shows "\<exists>p r f m.
      evaluate_dataset F P T False = Inr (Scores p r f)
      \<and> evaluate_dataset F P T True = Inr (ScoresAndMetrics p r f m)
      \<and> scores_of (ScoresAndMetrics p r f m) = scores_of (Scores p r f)"
  by (simp add: evaluate_dataset_value [OF assms] Let_def)

theorem complete_metrics_keeps_scores_witness:
  "float_laws exact_ops \<and> length [[''a'', ''b'', ''c''], [''Oi'']] = length [[''a'', ''c''], [''Oi'']]
   \<and> (\<exists>p r f m.
        evaluate_dataset exact_ops [[''a'', ''b'', ''c''], [''Oi'']] [[''a'', ''c''], [''Oi'']] False = Inr (Scores p r f)
        \<and> evaluate_dataset exact_ops [[''a'', ''b'', ''c''], [''Oi'']] [[''a'', ''c''], [''Oi'']] True =
            Inr (ScoresAndMetrics p r f m))"
proof -
  have len: "length [[''a'', ''b'', ''c''], [''Oi'']] = length [[''a'', ''c''], [''Oi'']]" by simp
  from complete_metrics_keeps_scores [OF exact_ops_laws len] exact_ops_laws len
  show ?thesis by blast
qed

text \<open>
  Claim C10. Under the laws of the arithmetic and for lists of equal length \<open>n\<close>, the
  list \<open>incorrect_sentences_ids\<close> returned with \<open>complete_metrics\<close> true is strictly
  increasing and each of its elements \<open>i\<close> satisfies \<open>0 \<le> i < n\<close>.
\<close>

theorem incorrect_sentences_ids_increasing:
  assumes "float_laws F" "length P = length T"
  shows "\<exists>p r f m.
      evaluate_dataset F P T True = Inr (ScoresAndMetrics p r f m)
      \<and> sorted_wrt (<) (incorrect_sentences_ids m)
      \<and> (\<forall>i \<in> set (incorrect_sentences_ids m). 0 \<le> i \<and> i < length P)"
  by (simp add: evaluate_dataset_value [OF assms] Let_def sorted_wrt_filter)

theorem incorrect_sentences_ids_increasing_witness:
  "float_laws exact_ops
   \<and> length [[''a'', ''b'', ''c''], [''Oi'']] = length [[''a'', ''c''], [''Oi'']]
   \<and> (\<exists>p r f m.
        evaluate_dataset exact_ops [[''a'', ''b'', ''c''], [''Oi'']] [[''a'', ''c''], [''Oi'']] True =
          Inr (ScoresAndMetrics p r f m)
        \<and> sorted_wrt (<) (incorrect_sentences_ids m)
        \<and> (\<forall>i \<in> set (incorrect_sentences_ids m).
              0 \<le> i \<and> i < length [[''a'', ''b'', ''c''], [''Oi'']]))"
proof -
  have len: "length [[''a'', ''b'', ''c''], [''Oi'']] = length [[''a'', ''c''], [''Oi'']]" by simp
  from incorrect_sentences_ids_increasing [OF exact_ops_laws len] exact_ops_laws len
  show ?thesis by blast
qed

end
